theory Spec2Isabelle
  imports Complex_Main "HOL-Library.AList"
begin

section \<open>JSON values\<close>

text \<open>
  The page works on the result of \<^verbatim>\<open>JSON.parse\<close>: the type \<^verbatim>\<open>JsonValue\<close> of
  \<^verbatim>\<open>page.tsx\<close>. A JavaScript number is a finite double, which denotes a rational, or one
  of the three non-finite values. An object is the list of its own properties in the order
  in which \<^verbatim>\<open>Object.entries\<close> and \<^verbatim>\<open>Object.keys\<close> enumerate them.
\<close>

datatype js_number = Finite rat | PosInfinity | NegInfinity | NaN

datatype JsonValue =
    JNull
  | JBool bool
  | JNumber js_number
  | JString string
  | JArray "JsonValue list"
  | JObject "(string \<times> JsonValue) list"

subsection \<open>Own properties of a JavaScript object\<close>

text \<open>
  An ordinary object enumerates the keys that are array indices first, in ascending numeric
  order, and then every other string key in the order of its creation. An array index is
  a canonical decimal numeral below \<open>2^32 - 1\<close>.
\<close>

definition is_digit :: "char \<Rightarrow> bool" where
  "is_digit c = (c \<in> set ''0123456789'')"

definition digit_value :: "char \<Rightarrow> nat" where
  "digit_value c = of_char c - 48"

definition array_index :: "string \<Rightarrow> nat option" where
  "array_index s =
     (if s = [] \<or> \<not> list_all is_digit s \<or> (hd s = CHR ''0'' \<and> s \<noteq> ''0'') then None
      else (let n = foldl (\<lambda>acc c. 10 * acc + digit_value c) 0 s
            in if int n < 4294967295 then Some n else None))"

text \<open>\<open>key_precedes k k'\<close>: an object holding both keys may enumerate \<open>k\<close> before \<open>k'\<close>.\<close>

definition key_precedes :: "string \<Rightarrow> string \<Rightarrow> bool" where
  "key_precedes k k' =
     (case array_index k of
        None \<Rightarrow> array_index k' = None
      | Some a \<Rightarrow> (case array_index k' of None \<Rightarrow> True | Some b \<Rightarrow> a < b))"

text \<open>Creating a property that the object does not have yet.\<close>

fun js_insert :: "string \<Rightarrow> 'a \<Rightarrow> (string \<times> 'a) list \<Rightarrow> (string \<times> 'a) list" where
  "js_insert k v [] = [(k, v)]"
| "js_insert k v (p # ps) =
     (if key_precedes (fst p) k then p # js_insert k v ps else (k, v) # p # ps)"

text \<open>
  Defining the data property \<open>k\<close> of an object: an existing property keeps its place and
  takes the new value, a new one is created.
\<close>

definition js_define :: "(string \<times> 'a) list \<Rightarrow> string \<Rightarrow> 'a \<Rightarrow> (string \<times> 'a) list" where
  "js_define obj k v =
     (if k \<in> fst ` set obj then AList.update k v obj else js_insert k v obj)"

text \<open>
  The assignment \<^verbatim>\<open>obj[key] = v\<close> on an object created by the literal \<^verbatim>\<open>{}\<close>, with \<open>v\<close>
  an object. For the key \<^verbatim>\<open>__proto__\<close> the assignment runs the inherited setter, which
  creates no own property. The setter makes \<open>v\<close> the prototype of the object; an object is
  represented here by its own properties, which are what \<^verbatim>\<open>Object.keys\<close>,
  \<^verbatim>\<open>Object.entries\<close> and \<^verbatim>\<open>JSON.stringify\<close> show, so that link is not represented.
\<close>

definition js_assign :: "(string \<times> 'a) list \<Rightarrow> string \<Rightarrow> 'a \<Rightarrow> (string \<times> 'a) list" where
  "js_assign obj key v = (if key = ''__proto__'' then obj else js_define obj key v)"

text \<open>\<^verbatim>\<open>Object.fromEntries\<close> defines the entries one after the other on a fresh object.\<close>

definition fromEntries :: "(string \<times> 'a) list \<Rightarrow> (string \<times> 'a) list" where
  "fromEntries es = foldl (\<lambda>obj (k, v). js_define obj k v) [] es"

text \<open>
  \<^verbatim>\<open>new Set(xs)\<close>, read back with \<^verbatim>\<open>Array.from\<close>, a spread or \<^verbatim>\<open>forEach\<close>: the
  elements of \<open>xs\<close> in the order of their first occurrence.
\<close>

definition new_Set :: "'a list \<Rightarrow> 'a list" where
  "new_Set xs = foldl (\<lambda>seen x. if x \<in> set seen then seen else seen @ [x]) [] xs"

text \<open>
  \<^verbatim>\<open>xs.slice(0, end)\<close> for an integer \<open>end\<close>: a negative \<open>end\<close> counts from the end of
  the array.
\<close>

definition slice0 :: "'a list \<Rightarrow> int \<Rightarrow> 'a list" where
  "slice0 xs e =
     (let len = int (length xs);
          final = (if e < 0 then max (len + e) 0 else min e len)
      in take (nat final) xs)"

text \<open>
  The values that \<^verbatim>\<open>JSON.parse\<close> returns: in every object the keys are distinct and in
  enumeration order.
\<close>

fun parsed :: "JsonValue \<Rightarrow> bool" where
  "parsed (JArray xs) = (\<forall>x \<in> set xs. parsed x)"
| "parsed (JObject es) =
     (distinct (map fst es) \<and> sorted_wrt key_precedes (map fst es) \<and>
      (\<forall>e \<in> set es. parsed (snd e)))"
| "parsed v = True"

section \<open>Trimming\<close>

text \<open>
  \<^verbatim>\<open>trimStructure\<close>, lines 33 to 47 of \<^verbatim>\<open>page.tsx\<close>. The limit is an integer: the
  page passes the result of \<^verbatim>\<open>Number.parseInt\<close>, raised to \<open>0\<close> when it is negative.
\<close>

function trimStructure :: "JsonValue \<Rightarrow> int \<Rightarrow> JsonValue" where
  "trimStructure (JArray xs) maxArrayLen =
     JArray (map (\<lambda>item. trimStructure item maxArrayLen) (slice0 xs maxArrayLen))"
| "trimStructure (JObject es) maxArrayLen =
     JObject (fromEntries (map (\<lambda>(key, val). (key, trimStructure val maxArrayLen)) es))"
| "trimStructure JNull maxArrayLen = JNull"
| "trimStructure (JBool b) maxArrayLen = JBool b"
| "trimStructure (JNumber x) maxArrayLen = JNumber x"
| "trimStructure (JString s) maxArrayLen = JString s"
  by pat_completeness auto
termination
proof (relation "measure (\<lambda>(v, n). size v)")
  show "wf (measure (\<lambda>(v :: JsonValue, n :: int). size v))"
    by simp
next
  fix xs :: "JsonValue list" and maxArrayLen :: int and item
  assume "item \<in> set (slice0 xs maxArrayLen)"
  then have "item \<in> set xs"
    unfolding slice0_def Let_def by (rule in_set_takeD)
  then have "size item < Suc (size_list size xs)"
    by (induction xs) auto
  then show "((item, maxArrayLen), (JArray xs, maxArrayLen)) \<in> measure (\<lambda>(v, n). size v)"
    by simp
next
  fix es :: "(string \<times> JsonValue) list" and maxArrayLen :: int and x key val
  assume "x \<in> set es" and "(key, val) = x"
  then have "(key, val) \<in> set es"
    by simp
  then have "size val < Suc (size_list (size_prod (\<lambda>_. 0) size) es)"
    by (induction es) auto
  then show "((val, maxArrayLen), (JObject es, maxArrayLen)) \<in> measure (\<lambda>(v, n). size v)"
    by simp
qed

subsection \<open>What the specification says about trimming\<close>

text \<open>
  The trimmer as section 4.1 of the specification words it, for a limit that is a natural
  number: an array keeps its first \<open>min limit (length items)\<close> items, each trimmed; an
  object keeps its entries, each value trimmed; every other value is returned as it is.
\<close>

function trim_spec :: "nat \<Rightarrow> JsonValue \<Rightarrow> JsonValue" where
  "trim_spec limit (JArray its) =
     JArray (map (trim_spec limit) (take (min limit (length its)) its))"
| "trim_spec limit (JObject es) = JObject (map (\<lambda>e. (fst e, trim_spec limit (snd e))) es)"
| "trim_spec limit JNull = JNull"
| "trim_spec limit (JBool b) = JBool b"
| "trim_spec limit (JNumber x) = JNumber x"
| "trim_spec limit (JString s) = JString s"
  by pat_completeness auto
termination
proof (relation "measure (\<lambda>(n, v). size v)")
  show "wf (measure (\<lambda>(n :: nat, v :: JsonValue). size v))"
    by simp
next
  fix limit :: nat and its :: "JsonValue list" and x
  assume "x \<in> set (take (min limit (length its)) its)"
  then have "x \<in> set its"
    by (rule in_set_takeD)
  then have "size x < Suc (size_list size its)"
    by (induction its) auto
  then show "((limit, x), (limit, JArray its)) \<in> measure (\<lambda>(n, v). size v)"
    by simp
next
  fix limit :: nat and es :: "(string \<times> JsonValue) list" and e
  assume "e \<in> set es"
  then have "(fst e, snd e) \<in> set es"
    by simp
  then have "size (snd e) < Suc (size_list (size_prod (\<lambda>_. 0) size) es)"
    by (induction es) auto
  then show "((limit, snd e), (limit, JObject es)) \<in> measure (\<lambda>(n, v). size v)"
    by simp
qed

text \<open>Every array of a value, at any depth, has at most \<open>n\<close> elements.\<close>

fun arrays_within :: "nat \<Rightarrow> JsonValue \<Rightarrow> bool" where
  "arrays_within n (JArray xs) = (length xs \<le> n \<and> (\<forall>x \<in> set xs. arrays_within n x))"
| "arrays_within n (JObject es) = (\<forall>e \<in> set es. arrays_within n (snd e))"
| "arrays_within n v = True"

text \<open>The greatest length of an array of a value, \<open>0\<close> when it has none.\<close>

fun max_array_len :: "JsonValue \<Rightarrow> nat" where
  "max_array_len (JArray xs) = max (length xs) (fold max (map max_array_len xs) 0)"
| "max_array_len (JObject es) = fold max (map (\<lambda>e. max_array_len (snd e)) es) 0"
| "max_array_len v = 0"

text \<open>The kind of a node.\<close>

datatype kind = Scalar | Array | Object

fun kind_of :: "JsonValue \<Rightarrow> kind" where
  "kind_of (JArray xs) = Array"
| "kind_of (JObject es) = Object"
| "kind_of v = Scalar"

text \<open>
  \<open>shape_kept v w\<close>: \<open>w\<close> has the shape of \<open>v\<close> outside the dropped array elements. A scalar
  is the same scalar, an object has the same keys in the same order over values that keep
  their shape, and an array is an array of some of the leading elements, each keeping its
  shape.
\<close>

inductive shape_kept :: "JsonValue \<Rightarrow> JsonValue \<Rightarrow> bool" where
  scalar: "kind_of v = Scalar \<Longrightarrow> shape_kept v v"
| object: "map fst fs = map fst es \<Longrightarrow> list_all2 shape_kept (map snd es) (map snd fs) \<Longrightarrow>
           shape_kept (JObject es) (JObject fs)"
| array: "length ys \<le> length xs \<Longrightarrow> list_all2 shape_kept (take (length ys) xs) ys \<Longrightarrow>
          shape_kept (JArray xs) (JArray ys)"


section \<open>Schemas\<close>

text \<open>
  The type \<^verbatim>\<open>JsonSchema\<close> of \<^verbatim>\<open>page.tsx\<close>: five optional fields, \<open>None\<close> for a field
  that is absent or \<^verbatim>\<open>undefined\<close>. The field \<^verbatim>\<open>type\<close> is one tag or an array of tags.
\<close>

datatype type_field = Single string | Multi "string list"

datatype JsonSchema = JsonSchema
  (dollar_schema: "string option")
  (schema_type: "type_field option")
  (properties: "(string \<times> JsonSchema) list option")
  (items: "JsonSchema option")
  (required: "string list option")

text \<open>The object literal \<^verbatim>\<open>{}\<close>.\<close>

definition empty_schema :: JsonSchema where
  "empty_schema = JsonSchema None None None None None"

text \<open>The object literal \<^verbatim>\<open>{ type: t }\<close>.\<close>

definition type_only :: "string \<Rightarrow> JsonSchema" where
  "type_only t = JsonSchema None (Some (Single t)) None None None"

text \<open>
  \<^verbatim>\<open>normalizeTypes\<close>, lines 49 to 52. The test \<^verbatim>\<open>!schema?.type\<close> holds for a schema that
  is \<^verbatim>\<open>null\<close>, for an absent type and for the empty string; an array, also an empty one,
  is returned as it is.
\<close>

fun normalizeTypes :: "JsonSchema option \<Rightarrow> string list" where
  "normalizeTypes None = []"
| "normalizeTypes (Some schema) =
     (case schema_type schema of
        None \<Rightarrow> []
      | Some (Single t) \<Rightarrow> (if t = [] then [] else [t])
      | Some (Multi ts) \<Rightarrow> ts)"

text \<open>
  Reading \<^verbatim>\<open>props[key] ?? null\<close> on a record of schemas built from \<^verbatim>\<open>{}\<close>. A key that
  the record does not own is looked up in \<^verbatim>\<open>Object.prototype\<close>, whose members are
  functions (and, for \<^verbatim>\<open>__proto__\<close>, the prototype object): values that are not
  \<^verbatim>\<open>null\<close> and have none of the fields \<^verbatim>\<open>type\<close>, \<^verbatim>\<open>properties\<close>, \<^verbatim>\<open>items\<close> and
  \<^verbatim>\<open>required\<close>. \<^verbatim>\<open>mergeSchemas\<close> reads nothing else of its arguments, so such a value
  stands here as the schema without fields.
\<close>

definition object_prototype_keys :: "string list" where
  "object_prototype_keys =
     [''constructor'', ''__defineGetter__'', ''__defineSetter__'', ''hasOwnProperty'',
      ''__lookupGetter__'', ''__lookupSetter__'', ''isPrototypeOf'', ''propertyIsEnumerable'',
      ''toString'', ''valueOf'', ''__proto__'', ''toLocaleString'']"

definition js_get :: "(string \<times> JsonSchema) list \<Rightarrow> string \<Rightarrow> JsonSchema option" where
  "js_get props key =
     (case map_of props key of
        Some s \<Rightarrow> Some s
      | None \<Rightarrow> if key \<in> set object_prototype_keys then Some empty_schema else None)"

subsection \<open>The merger\<close>

text \<open>
  \<^verbatim>\<open>mergeSchemas\<close>, lines 54 to 93, in the order of the source. Lines 58 to 64: the
  union of the two tag lists, kept as one tag when it has one element.
\<close>

definition merged_type :: "JsonSchema \<Rightarrow> JsonSchema \<Rightarrow> type_field option" where
  "merged_type left right =
     (let types = new_Set (normalizeTypes (Some left) @ normalizeTypes (Some right))
      in if length types > 0
         then Some (if length types = 1 then Single (hd types) else Multi types)
         else None)"

text \<open>Lines 66, 67, 86 and 87: \<^verbatim>\<open>normalizeTypes(schema).includes(tag)\<close>.\<close>

definition includes_tag :: "JsonSchema \<Rightarrow> string \<Rightarrow> bool" where
  "includes_tag schema tag = (tag \<in> set (normalizeTypes (Some schema)))"

text \<open>Lines 70 and 71: \<^verbatim>\<open>schema.properties ?? {}\<close>.\<close>

definition props_or_empty :: "JsonSchema \<Rightarrow> (string \<times> JsonSchema) list" where
  "props_or_empty schema = (case properties schema of None \<Rightarrow> [] | Some p \<Rightarrow> p)"

text \<open>Line 72: the set of the keys of both records.\<close>

definition merged_keys :: "JsonSchema \<Rightarrow> JsonSchema \<Rightarrow> string list" where
  "merged_keys left right =
     new_Set (map fst (props_or_empty left) @ map fst (props_or_empty right))"

text \<open>Lines 78 and 79: \<^verbatim>\<open>schema.required ?? []\<close>.\<close>

definition required_or_empty :: "JsonSchema \<Rightarrow> string list" where
  "required_or_empty schema = (case required schema of None \<Rightarrow> [] | Some r \<Rightarrow> r)"

text \<open>Lines 78 to 83: the names of the left list that the right list has too.\<close>

definition merged_required :: "JsonSchema \<Rightarrow> JsonSchema \<Rightarrow> string list option" where
  "merged_required left right =
     (let leftRequired = new_Set (required_or_empty left);
          rightRequired = new_Set (required_or_empty right);
          req = filter (\<lambda>key. key \<in> set rightRequired) leftRequired
      in if length req > 0 then Some req else None)"

function mergeSchemas :: "JsonSchema option \<Rightarrow> JsonSchema option \<Rightarrow> JsonSchema" where
  "mergeSchemas None right = (case right of None \<Rightarrow> empty_schema | Some r \<Rightarrow> r)"
| "mergeSchemas (Some left) None = left"
| "mergeSchemas (Some left) (Some right) =
     JsonSchema None
       (merged_type left right)
       (if includes_tag left ''object'' \<and> includes_tag right ''object''
        then Some (foldl (\<lambda>props key.
                      js_assign props key
                        (mergeSchemas (js_get (props_or_empty left) key)
                                      (js_get (props_or_empty right) key)))
                    [] (merged_keys left right))
        else None)
       (if includes_tag left ''array'' \<and> includes_tag right ''array''
        then Some (mergeSchemas (items left) (items right))
        else None)
       (if includes_tag left ''object'' \<and> includes_tag right ''object''
        then merged_required left right
        else None)"
  by pat_completeness auto
termination
proof (relation "measure (\<lambda>(l, r). size_option size l + size_option size r)")
  show "wf (measure (\<lambda>(l :: JsonSchema option, r :: JsonSchema option).
              size_option size l + size_option size r))"
    by simp
next
  fix left right :: JsonSchema and x :: string
  assume "x \<in> set (merged_keys left right)"
  have seen: "set (foldl (\<lambda>seen x. if x \<in> set seen then seen else seen @ [x]) acc ks)
               = set acc \<union> set ks" for acc ks :: "string list"
    by (induction ks arbitrary: acc) auto
  have entry: "size s < size_list (size_prod (\<lambda>_. 0) size) ps"
    if "map_of ps k = Some s" for ps :: "(string \<times> JsonSchema) list" and k s
    using map_of_SomeD [OF that] by (induction ps) auto
  have own: "size_option size (js_get (props_or_empty s) k) < Suc (size s)"
    if "k \<in> fst ` set (props_or_empty s)" for s k
  proof -
    from that obtain t where t: "map_of (props_or_empty s) k = Some t"
      by (metis domD dom_map_of_conv_image_fst)
    from that obtain ps where ps: "properties s = Some ps"
      by (cases "properties s") (auto simp: props_or_empty_def)
    from entry t ps have "size t < size_list (size_prod (\<lambda>_. 0) size) ps"
      by (simp add: props_or_empty_def)
    with ps have "Suc (size t) < Suc (size s)"
      by (cases s) simp
    with t show ?thesis
      by (simp add: js_get_def)
  qed
  have any: "size_option size (js_get (props_or_empty s) k) \<le> Suc (size s)" for s k
  proof (cases "k \<in> fst ` set (props_or_empty s)")
    case True
    from own [OF this] show ?thesis by simp
  next
    case False
    then have "map_of (props_or_empty s) k = None"
      by (simp add: map_of_eq_None_iff)
    then show ?thesis
      by (cases s; cases "properties s"; cases "items s") (simp_all add: js_get_def empty_schema_def)
  qed
  from \<open>x \<in> set (merged_keys left right)\<close>
  have "x \<in> fst ` set (props_or_empty left) \<or> x \<in> fst ` set (props_or_empty right)"
    by (auto simp: merged_keys_def new_Set_def seen)
  then have "size_option size (js_get (props_or_empty left) x)
           + size_option size (js_get (props_or_empty right) x) < Suc (size left) + Suc (size right)"
    using own [of x left] own [of x right] any [of left x] any [of right x] by linarith
  then show "((js_get (props_or_empty left) x, js_get (props_or_empty right) x),
              (Some left, Some right))
            \<in> measure (\<lambda>(l, r). size_option size l + size_option size r)"
    by simp
next
  fix left right :: JsonSchema
  have "size_option size (items s) \<le> size s" for s :: JsonSchema
    by (cases s; cases "properties s"; cases "items s") auto
  from this [of left] this [of right]
  have "size_option size (items left) + size_option size (items right)
           < Suc (size left) + Suc (size right)"
    by linarith
  then show "((items left, items right), (Some left, Some right))
            \<in> measure (\<lambda>(l, r). size_option size l + size_option size r)"
    by simp
qed

subsection \<open>The inferrer\<close>

text \<open>\<^verbatim>\<open>Number.isInteger\<close>: a finite number without fractional part.\<close>

fun isInteger :: "js_number \<Rightarrow> bool" where
  "isInteger (Finite q) = (of_int \<lfloor>q\<rfloor> = q)"
| "isInteger x = False"

text \<open>The operator \<^verbatim>\<open>typeof\<close>.\<close>

fun typeof :: "JsonValue \<Rightarrow> string" where
  "typeof (JString s) = ''string''"
| "typeof (JNumber x) = ''number''"
| "typeof (JBool b) = ''boolean''"
| "typeof v = ''object''"

text \<open>
  The documents in which no object, at any depth, has the key \<^verbatim>\<open>__proto__\<close>. On such a
  document every assignment of lines 74 and 111 creates or updates an own property, every
  record keeps the prototype \<^verbatim>\<open>Object.prototype\<close>, and the definitions below compute what
  the code computes. On a document with the key \<^verbatim>\<open>__proto__\<close>, line 111 makes the inferred
  schema the prototype of the record, and lines 50, 70 to 74, 78 and 89 then read members
  inherited from it; the representation of a record by its own properties does not show
  this, so the statements about \<open>inferSchema\<close> on arbitrary documents are made for
  \<open>proto_free\<close> documents only.
\<close>

fun proto_free :: "JsonValue \<Rightarrow> bool" where
  "proto_free (JArray xs) = (\<forall>x \<in> set xs. proto_free x)"
| "proto_free (JObject es) =
     (''__proto__'' \<notin> fst ` set es \<and> (\<forall>e \<in> set es. proto_free (snd e)))"
| "proto_free v = True"

text \<open>\<^verbatim>\<open>inferSchema\<close>, lines 95 to 126.\<close>

function inferSchema :: "JsonValue \<Rightarrow> JsonSchema" where
  "inferSchema JNull = type_only ''null''"
| "inferSchema (JArray xs) =
     (if length xs = 0 then JsonSchema None (Some (Single ''array'')) None (Some empty_schema) None
      else (let itemsSchema =
                  foldl (\<lambda>acc item. Some (mergeSchemas acc (Some (inferSchema item)))) None xs
            in JsonSchema None (Some (Single ''array'')) None
                 (Some (case itemsSchema of None \<Rightarrow> empty_schema | Some s \<Rightarrow> s)) None))"
| "inferSchema (JObject es) =
     (let props = foldl (\<lambda>props (key, val). js_assign props key (inferSchema val)) [] es;
          req = map fst props
      in JsonSchema None (Some (Single ''object'')) (Some props) None
           (if length req > 0 then Some req else None))"
| "inferSchema (JNumber x) = type_only (if isInteger x then ''integer'' else ''number'')"
| "inferSchema (JBool b) = type_only (typeof (JBool b))"
| "inferSchema (JString s) = type_only (typeof (JString s))"
  by pat_completeness auto
termination
proof (relation "measure size")
  show "wf (measure (size :: JsonValue \<Rightarrow> nat))"
    by simp
next
  fix xs :: "JsonValue list" and item
  assume "item \<in> set xs"
  then have "size item < Suc (size_list size xs)"
    by (induction xs) auto
  then show "(item, JArray xs) \<in> measure size"
    by simp
next
  fix es :: "(string \<times> JsonValue) list" and x key val
  assume "x \<in> set es" and "(key, val) = x"
  then have "(key, val) \<in> set es"
    by simp
  then have "size val < Suc (size_list (size_prod (\<lambda>_. 0) size) es)"
    by (induction es) auto
  then show "(val, JObject es) \<in> measure size"
    by simp
qed

text \<open>
  \<^verbatim>\<open>generateSchema\<close>, lines 128 to 134. The spread \<^verbatim>\<open>...schema\<close> comes after the
  property \<^verbatim>\<open>$schema\<close> of the literal, so a \<^verbatim>\<open>$schema\<close> of \<open>schema\<close> would replace it.
\<close>

definition draft_identifier :: string where
  "draft_identifier = ''https://json-schema.org/draft/2020-12/schema''"

definition generateSchema :: "JsonValue \<Rightarrow> JsonSchema" where
  "generateSchema v =
     (let schema = inferSchema v
      in JsonSchema
           (case dollar_schema schema of None \<Rightarrow> Some draft_identifier | Some d \<Rightarrow> Some d)
           (schema_type schema) (properties schema) (items schema) (required schema))"


subsection \<open>Notions used to state properties of schemas\<close>

text \<open>
  The schemas directly below a schema: the values of its properties and its items.
  \<open>all_nodes P s\<close> says that \<open>P\<close> holds of \<open>s\<close> and of every schema nested in it, at any
  depth.
\<close>

fun all_nodes :: "(JsonSchema \<Rightarrow> bool) \<Rightarrow> JsonSchema \<Rightarrow> bool" where
  "all_nodes P (JsonSchema d t p i r) =
     (P (JsonSchema d t p i r) \<and>
      (case p of None \<Rightarrow> True | Some ps \<Rightarrow> \<forall>e \<in> set ps. all_nodes P (snd e)) \<and>
      (case i of None \<Rightarrow> True | Some c \<Rightarrow> all_nodes P c))"

definition children :: "JsonSchema \<Rightarrow> JsonSchema list" where
  "children s = map snd (props_or_empty s) @ (case items s of None \<Rightarrow> [] | Some c \<Rightarrow> [c])"

text \<open>
  The invariant of section 3 of the specification at one schema: the tag \<open>object\<close> comes
  with a \<open>properties\<close> record, the tag \<open>array\<close> with an \<open>items\<close> schema.
\<close>

definition tagged_has_fields :: "JsonSchema \<Rightarrow> bool" where
  "tagged_has_fields s =
     ((includes_tag s ''object'' \<longrightarrow> properties s \<noteq> None) \<and>
      (includes_tag s ''array'' \<longrightarrow> items s \<noteq> None))"

text \<open>
  The other direction: \<open>properties\<close> and \<open>required\<close> only under the tag \<open>object\<close>,
  \<open>items\<close> only under the tag \<open>array\<close>.
\<close>

definition fields_only_if_tagged :: "JsonSchema \<Rightarrow> bool" where
  "fields_only_if_tagged s =
     ((properties s \<noteq> None \<longrightarrow> includes_tag s ''object'') \<and>
      (required s \<noteq> None \<longrightarrow> includes_tag s ''object'') \<and>
      (items s \<noteq> None \<longrightarrow> includes_tag s ''array''))"



section \<open>Sample documents\<close>

text \<open>The document of the end-to-end scenario of the specification.\<close>

definition scenario :: JsonValue where
  "scenario =
     JObject [(''users'', JArray
       [JObject [(''id'', JNumber (Finite 1)), (''name'', JString ''Ada''),
                 (''roles'', JArray [JString ''admin'', JString ''editor''])],
        JObject [(''id'', JNumber (Finite 2)), (''name'', JString ''Max''),
                 (''roles'', JArray [JString ''viewer''])]])]"

text \<open>The number \<open>1\<close> and the object \<^verbatim>\<open>{"a": 1}\<close>.\<close>

definition one :: JsonValue where
  "one = JNumber (Finite 1)"

definition object_a :: JsonValue where
  "object_a = JObject [(''a'', one)]"



text \<open>
  The document \<^verbatim>\<open>[{"__proto__":{"__proto__":{},"required":1}},{"properties":{}}]\<close>, as
  \<^verbatim>\<open>JSON.parse\<close> returns it: there \<^verbatim>\<open>__proto__\<close> is an own key.
\<close>

definition proto_document :: JsonValue where
  "proto_document =
     JArray [JObject [(''__proto__'', JObject [(''__proto__'', JObject []), (''required'', one)])],
             JObject [(''properties'', JObject [])]]"

text \<open>The object \<^verbatim>\<open>{"a": 1, "b": 2}\<close>.\<close>

definition object_ab :: JsonValue where
  "object_ab = JObject [(''a'', one), (''b'', JNumber (Finite 2))]"


section \<open>Properties of the trimmer\<close>

subsection \<open>Objects are rebuilt as they were\<close>

lemma slice0_nonneg: "0 \<le> n \<Longrightarrow> slice0 xs n = take (nat n) xs"
  by (simp add: slice0_def Let_def min_def)

lemma js_insert_last:
  "\<forall>p \<in> set ps. key_precedes (fst p) k \<Longrightarrow> js_insert k v ps = ps @ [(k, v)]"
  by (induction ps) auto

lemma fromEntries_snoc: "fromEntries (es @ [(k, v)]) = js_define (fromEntries es) k v"
  by (simp add: fromEntries_def)

lemma fromEntries_enumerated:
  "distinct (map fst es) \<Longrightarrow> sorted_wrt key_precedes (map fst es) \<Longrightarrow> fromEntries es = es"
proof (induction es rule: rev_induct)
  case Nil
  show ?case by (simp add: fromEntries_def)
next
  case (snoc e es)
  obtain k v where e: "e = (k, v)" by (cases e)
  from snoc.prems have d: "distinct (map fst es)" and s: "sorted_wrt key_precedes (map fst es)"
    by (simp_all add: sorted_wrt_append)
  from snoc.prems e have fresh: "k \<notin> fst ` set es"
    by auto
  from snoc.prems e have before: "\<forall>p \<in> set es. key_precedes (fst p) k"
    by (auto simp: sorted_wrt_append)
  have "fromEntries (es @ [e]) = js_define es k v"
    using snoc.IH [OF d s] e by (simp add: fromEntries_snoc)
  also have "\<dots> = js_insert k v es"
    using fresh by (simp add: js_define_def)
  also have "\<dots> = es @ [e]"
    using before e by (simp add: js_insert_last)
  finally show ?case .
qed

lemma fst_entry_map: "fst \<circ> (\<lambda>(key, val). (key, f val)) = fst"
  by (auto simp: fun_eq_iff)

lemma trim_object:
  assumes "distinct (map fst es)" and "sorted_wrt key_precedes (map fst es)"
  shows "trimStructure (JObject es) n = JObject (map (\<lambda>(key, val). (key, trimStructure val n)) es)"
proof -
  have "fromEntries (map (\<lambda>(key, val). (key, trimStructure val n)) es)
      = map (\<lambda>(key, val). (key, trimStructure val n)) es"
    by (rule fromEntries_enumerated) (simp_all add: fst_entry_map assms)
  then show ?thesis by simp
qed

lemma take_min_length: "take (min n (length xs)) xs = take n xs"
  by (simp add: min_def)

lemma trim_refines: "0 \<le> n \<Longrightarrow> parsed v \<Longrightarrow> trimStructure v n = trim_spec (nat n) v"
proof (induction "nat n" v rule: trim_spec.induct)
  case (1 its)
  then show ?case
    by (auto simp: slice0_nonneg take_min_length dest: in_set_takeD)
next
  case (2 es)
  from "2.prems" have "distinct (map fst es)" and "sorted_wrt key_precedes (map fst es)"
    by simp_all
  then have a: "trimStructure (JObject es) n
      = JObject (map (\<lambda>(key, val). (key, trimStructure val n)) es)"
    by (rule trim_object)
  have b: "map (\<lambda>(key, val). (key, trimStructure val n)) es
      = map (\<lambda>e. (fst e, trim_spec (nat n) (snd e))) es"
    using 2 by (auto simp: case_prod_unfold)
  show ?case
    unfolding a b by simp
qed simp_all

lemma arrays_within_trim_spec: "arrays_within n (trim_spec n v)"
  by (induction n v rule: trim_spec.induct) (auto dest: in_set_takeD)

lemma parsed_trim_spec: "parsed v \<Longrightarrow> parsed (trim_spec n v)"
  by (induction n v rule: trim_spec.induct) (auto dest: in_set_takeD simp: comp_def)

lemma trim_spec_fixed: "arrays_within n v \<Longrightarrow> trim_spec n v = v"
  by (induction n v rule: trim_spec.induct) (auto simp: map_idI)

lemma fold_max_le: "fold max ns (m::nat) \<le> n \<longleftrightarrow> m \<le> n \<and> (\<forall>x \<in> set ns. x \<le> n)"
  by (induction ns arbitrary: m) auto

lemma arrays_within_max: "arrays_within n v \<longleftrightarrow> max_array_len v \<le> n"
  by (induction n v rule: arrays_within.induct) (auto simp: fold_max_le)

lemma shape_kept_trim_spec: "shape_kept v (trim_spec n v)"
proof (induction n v rule: trim_spec.induct)
  case (1 limit its)
  have "list_all2 shape_kept (take (min limit (length its)) its)
          (map (trim_spec limit) (take (min limit (length its)) its))"
    using 1 by (simp add: list.rel_map list_all2_same)
  then show ?case
    by (auto intro!: shape_kept.array)
next
  case (2 limit es)
  have "list_all2 shape_kept (map snd es) (map snd (map (\<lambda>e. (fst e, trim_spec limit (snd e))) es))"
    using 2 by (simp add: list.rel_map list_all2_same)
  then show ?case
    by (auto intro!: shape_kept.object simp: comp_def)
qed (auto intro: shape_kept.scalar)


lemma parsed_scenario: "parsed scenario"
  by (simp add: scenario_def key_precedes_def array_index_def is_digit_def)

text \<open>
  Claim C3. For a limit that is not negative, every array at any depth of the trimmed
  value has at most \<open>limit\<close> elements; the trimmed value is the one that section 4.1 of
  the specification describes, where an array keeps its first \<open>min limit (length items)\<close>
  items; and an array node of length \<open>k\<close> becomes an array of length \<open>min limit k\<close>
  whose \<open>i\<close>-th element is the trimmed \<open>i\<close>-th element of the original, with the same
  limit.
\<close>

theorem trim_length_bound:
  assumes "0 \<le> limit" and "parsed v"
  shows "arrays_within (nat limit) (trimStructure v limit) \<and>
         trimStructure v limit = trim_spec (nat limit) v \<and>
         (\<forall>xs. v = JArray xs \<longrightarrow>
            (\<exists>ys. trimStructure v limit = JArray ys \<and>
                  length ys = min (nat limit) (length xs) \<and>
                  (\<forall>i < length ys. ys ! i = trimStructure (xs ! i) limit)))"
proof -
  have eq: "trimStructure v limit = trim_spec (nat limit) v"
    using assms by (rule trim_refines)
  have bound: "arrays_within (nat limit) (trimStructure v limit)"
    unfolding eq by (rule arrays_within_trim_spec)
  have top: "\<exists>ys. trimStructure v limit = JArray ys \<and>
                  length ys = min (nat limit) (length xs) \<and>
                  (\<forall>i < length ys. ys ! i = trimStructure (xs ! i) limit)"
    if "v = JArray xs" for xs
    using that assms(1) by (simp add: slice0_nonneg)
  from eq bound top show ?thesis
    by blast
qed

theorem trim_length_bound_witness:
  "(0::int) \<le> 1 \<and> parsed scenario \<and>
   arrays_within (nat 1) (trimStructure scenario 1) \<and>
   trimStructure scenario 1 = trim_spec (nat 1) scenario \<and>
   parsed (JArray [one, object_a, one]) \<and>
   (\<exists>ys. trimStructure (JArray [one, object_a, one]) 1 = JArray ys \<and>
         length ys = min (nat 1) (length [one, object_a, one]) \<and>
         (\<forall>i < length ys. ys ! i = trimStructure ([one, object_a, one] ! i) 1))"
proof -
  have h: "(0::int) \<le> 1"
    by simp
  have p: "parsed (JArray [one, object_a, one])"
    by (simp add: one_def object_a_def)
  from trim_length_bound [OF h parsed_scenario] trim_length_bound [OF h p] h parsed_scenario p
  show ?thesis
    by blast
qed

text \<open>
  Claim C5. For a limit that is not negative, trimming keeps the shape of the value: the
  kind of every node, the keys of every object and their order, and every scalar. When the
  limit is at least the greatest array length of the value, the trimmed value is the value.
\<close>

theorem trim_preserves_structure:
  assumes "0 \<le> limit" and "parsed v"
  shows "shape_kept v (trimStructure v limit) \<and>
         kind_of (trimStructure v limit) = kind_of v \<and>
         (\<forall>es. v = JObject es \<longrightarrow>
            (\<exists>fs. trimStructure v limit = JObject fs \<and> map fst fs = map fst es)) \<and>
         (kind_of v = Scalar \<longrightarrow> trimStructure v limit = v) \<and>
         (int (max_array_len v) \<le> limit \<longrightarrow> trimStructure v limit = v)"
proof -
  have eq: "trimStructure v limit = trim_spec (nat limit) v"
    using assms by (rule trim_refines)
  have shape: "shape_kept v (trimStructure v limit)"
    unfolding eq by (rule shape_kept_trim_spec)
  have kind: "kind_of (trimStructure v limit) = kind_of v"
    unfolding eq by (cases v) simp_all
  have keys: "\<exists>fs. trimStructure v limit = JObject fs \<and> map fst fs = map fst es"
    if "v = JObject es" for es
    unfolding eq using that by (simp add: comp_def)
  have leaf: "trimStructure v limit = v" if "kind_of v = Scalar"
    using that by (cases v) simp_all
  have same: "trimStructure v limit = v" if "int (max_array_len v) \<le> limit"
  proof -
    from that have "max_array_len v \<le> nat limit"
      by simp
    then have "arrays_within (nat limit) v"
      by (simp add: arrays_within_max)
    then show ?thesis
      unfolding eq by (rule trim_spec_fixed)
  qed
  from shape kind keys leaf same show ?thesis
    by blast
qed

theorem trim_preserves_structure_witness:
  "(0::int) \<le> 2 \<and> parsed scenario \<and> int (max_array_len scenario) \<le> 2 \<and>
   shape_kept scenario (trimStructure scenario 2) \<and> trimStructure scenario 2 = scenario \<and>
   (\<exists>fs. trimStructure scenario 2 = JObject fs \<and> map fst fs = [''users'']) \<and>
   parsed one \<and> kind_of one = Scalar \<and> trimStructure one 2 = one"
proof -
  have h: "(0::int) \<le> 2"
    by simp
  have m: "int (max_array_len scenario) \<le> 2"
    by (simp add: scenario_def)
  have k: "\<exists>fs. trimStructure scenario 2 = JObject fs \<and> map fst fs = [''users'']"
    using trim_preserves_structure [OF h parsed_scenario] by (simp add: scenario_def)
  have p: "parsed one" and s: "kind_of one = Scalar"
    by (simp_all add: one_def)
  from trim_preserves_structure [OF h parsed_scenario] trim_preserves_structure [OF h p]
    h parsed_scenario m k p s
  show ?thesis
    by blast
qed

text \<open>
  Claim C6. Trimming twice with the same limit, not negative, is trimming once.
\<close>

theorem trim_idempotent:
  assumes "0 \<le> n" and "parsed v"
  shows "trimStructure (trimStructure v n) n = trimStructure v n"
proof -
  have eq: "trimStructure v n = trim_spec (nat n) v"
    using assms by (rule trim_refines)
  have "parsed (trim_spec (nat n) v)"
    using assms(2) by (rule parsed_trim_spec)
  with assms(1) have "trimStructure (trim_spec (nat n) v) n = trim_spec (nat n) (trim_spec (nat n) v)"
    by (rule trim_refines)
  also have "\<dots> = trim_spec (nat n) v"
    by (rule trim_spec_fixed) (rule arrays_within_trim_spec)
  finally show ?thesis
    unfolding eq .
qed

theorem trim_idempotent_witness:
  "(0::int) \<le> 1 \<and> parsed scenario \<and>
   trimStructure (trimStructure scenario 1) 1 = trimStructure scenario 1"
proof -
  have h: "(0::int) \<le> 1"
    by simp
  from trim_idempotent [OF h parsed_scenario] h parsed_scenario show ?thesis
    by blast
qed


section \<open>Properties of the merger and the inferrer\<close>

subsection \<open>Sets of keys and tags\<close>

lemma set_seen: "set (foldl (\<lambda>seen x. if x \<in> set seen then seen else seen @ [x]) acc xs)
                   = set acc \<union> set xs"
  by (induction xs arbitrary: acc) auto

lemma distinct_seen:
  "distinct acc \<Longrightarrow> distinct (foldl (\<lambda>seen x. if x \<in> set seen then seen else seen @ [x]) acc xs)"
  by (induction xs arbitrary: acc) auto

lemma set_new_Set [simp]: "set (new_Set xs) = set xs"
  by (simp add: new_Set_def set_seen)

lemma distinct_new_Set [simp]: "distinct (new_Set xs)"
  by (simp add: new_Set_def distinct_seen)

lemma new_Set_Nil_iff [simp]: "new_Set xs = [] \<longleftrightarrow> xs = []"
  by (metis set_new_Set set_empty)


lemma tags_of_built:
  "(case (if length ts > 0 then Some (if length ts = 1 then Single (hd ts) else Multi ts) else None)
      of None \<Rightarrow> [] | Some (Single t) \<Rightarrow> (if t = [] then [] else [t]) | Some (Multi us) \<Rightarrow> us)
    = (if ts = [[]] then [] else ts)"
proof (cases ts)
  case Nil
  then show ?thesis by simp
next
  case (Cons t us)
  then show ?thesis by (cases us) simp_all
qed

lemma tags_of_merge_raw:
  "normalizeTypes (Some (mergeSchemas (Some a) (Some b)))
     = (if new_Set (normalizeTypes (Some a) @ normalizeTypes (Some b)) = [[]] then []
        else new_Set (normalizeTypes (Some a) @ normalizeTypes (Some b)))"
proof -
  have "normalizeTypes (Some (mergeSchemas (Some a) (Some b)))
      = (case merged_type a b of None \<Rightarrow> []
         | Some (Single t) \<Rightarrow> (if t = [] then [] else [t]) | Some (Multi us) \<Rightarrow> us)"
    by simp
  then show ?thesis
    by (simp only: merged_type_def Let_def tags_of_built)
qed


lemma mem_nonempty_tag:
  "tag \<noteq> [] \<Longrightarrow> tag \<in> set (if ts = [[]] then [] else ts) \<longleftrightarrow> tag \<in> set ts"
  by auto

lemma includes_tag_merge:
  assumes "tag \<noteq> []"
  shows "includes_tag (mergeSchemas (Some a) (Some b)) tag
           \<longleftrightarrow> includes_tag a tag \<or> includes_tag b tag"
  by (simp only: includes_tag_def tags_of_merge_raw mem_nonempty_tag [OF assms]
        set_new_Set set_append Un_iff)

lemma merged_fields [simp]:
  "properties (mergeSchemas (Some a) (Some b)) \<noteq> None
     \<longleftrightarrow> includes_tag a ''object'' \<and> includes_tag b ''object''"
  "items (mergeSchemas (Some a) (Some b)) \<noteq> None
     \<longleftrightarrow> includes_tag a ''array'' \<and> includes_tag b ''array''"
  "required (mergeSchemas (Some a) (Some b))
     = (if includes_tag a ''object'' \<and> includes_tag b ''object'' then merged_required a b else None)"
  "dollar_schema (mergeSchemas (Some a) (Some b)) = None"
  "schema_type (mergeSchemas (Some a) (Some b)) = merged_type a b"
  by simp_all


lemmas js_object_defs =
  js_assign_def js_define_def key_precedes_def array_index_def is_digit_def

lemmas merge_defs =
  merged_type_def includes_tag_def props_or_empty_def merged_keys_def merged_required_def
  required_or_empty_def new_Set_def js_get_def object_prototype_keys_def type_only_def
  empty_schema_def Let_def

lemma infer_one: "inferSchema one = type_only ''integer''"
  by (simp add: one_def)

lemma infer_object_a:
  "inferSchema object_a
     = JsonSchema None (Some (Single ''object'')) (Some [(''a'', type_only ''integer'')]) None
         (Some [''a''])"
  by (simp add: object_a_def infer_one js_object_defs)

lemma infer_one_object_a: "inferSchema (JArray [one, object_a])
     = JsonSchema None (Some (Single ''array'')) None
         (Some (JsonSchema None (Some (Multi [''integer'', ''object''])) None None None)) None"
  by (simp add: infer_one infer_object_a merge_defs)




lemma merged_required_sets:
  "case merged_required a b of
     None \<Rightarrow> set (required_or_empty a) \<inter> set (required_or_empty b) = {}
   | Some xs \<Rightarrow> xs \<noteq> [] \<and> distinct xs \<and>
               set xs = set (required_or_empty a) \<inter> set (required_or_empty b)"
proof -
  define req where "req = filter (\<lambda>key. key \<in> set (new_Set (required_or_empty b)))
                (new_Set (required_or_empty a))"
  have s: "set req = set (required_or_empty a) \<inter> set (required_or_empty b)"
    by (auto simp: req_def)
  have d: "distinct req"
    by (simp add: req_def)
  have m: "merged_required a b = (if req = [] then None else Some req)"
    by (simp add: merged_required_def Let_def req_def)
  show ?thesis
  proof (cases "req = []")
    case True
    with s have "set (required_or_empty a) \<inter> set (required_or_empty b) = {}"
      by simp
    with True m show ?thesis
      by simp
  next
    case False
    with s d m show ?thesis
      by simp
  qed
qed

text \<open>
  Claim C7. The schema of a scalar is decided by the kind of the value: \<open>null\<close>,
  \<open>boolean\<close> and \<open>string\<close>; a number is an \<open>integer\<close> exactly when it is finite and
  has no fractional part, and a \<open>number\<close> otherwise. The check looks at each value: the
  array \<^verbatim>\<open>[1, 1.5]\<close> has items of both types.
\<close>

theorem infer_scalars:
  "inferSchema JNull = type_only ''null'' \<and>
   inferSchema (JBool b) = type_only ''boolean'' \<and>
   inferSchema (JString s) = type_only ''string'' \<and>
   inferSchema (JNumber (Finite q)) = type_only (if q \<in> \<int> then ''integer'' else ''number'') \<and>
   inferSchema (JNumber PosInfinity) = type_only ''number'' \<and>
   inferSchema (JNumber NegInfinity) = type_only ''number'' \<and>
   inferSchema (JNumber NaN) = type_only ''number'' \<and>
   inferSchema (JNumber (Finite 5)) = type_only ''integer'' \<and>
   inferSchema (JNumber (Finite (11 / 2))) = type_only ''number'' \<and>
   items (inferSchema (JArray [JNumber (Finite 1), JNumber (Finite (3 / 2))]))
     = Some (JsonSchema None (Some (Multi [''integer'', ''number''])) None None None)"
proof -
  have frac: "isInteger (Finite q) \<longleftrightarrow> q \<in> \<int>" for q
    by (auto simp: of_int_floor_cancel Ints_def)
  have five: "(5::rat) \<in> \<int>" and one: "(1::rat) \<in> \<int>"
    by simp_all
  have half: "(11 / 2 :: rat) \<notin> \<int>" "(3 / 2 :: rat) \<notin> \<int>"
    using frac [of "11 / 2"] frac [of "3 / 2"] by simp_all
  have a: "inferSchema (JNumber (Finite q)) = type_only (if q \<in> \<int> then ''integer'' else ''number'')"
    for q
    by (simp only: inferSchema.simps frac)
  have e: "items (inferSchema (JArray [JNumber (Finite 1), JNumber (Finite (3 / 2))]))
     = Some (JsonSchema None (Some (Multi [''integer'', ''number''])) None None None)"
    by (simp add: a one half merge_defs del: inferSchema.simps(4))
  show ?thesis
    using a [of q] a [of 5] a [of "11 / 2"] e five half by simp
qed


lemma tag_object_a: "includes_tag (inferSchema object_a) ''object''"
  by (simp add: infer_object_a includes_tag_def)

lemma tag_one: "\<not> includes_tag (inferSchema one) ''object''" "\<not> includes_tag (inferSchema one) ''array''"
  by (simp_all add: infer_one includes_tag_def type_only_def)

lemma tag_empty_array: "includes_tag (inferSchema (JArray [])) ''array''"
  by (simp add: includes_tag_def)

text \<open>
  Claim C8. The merge of two schemas has \<open>properties\<close> and \<open>required\<close> only when
  both operands carry the tag \<open>object\<close>, and \<open>items\<close> only when both carry the tag
  \<open>array\<close>. When one operand alone carries the tag, the merged type has the tag and the
  merged schema has no such field.
\<close>

theorem merge_fields_need_both:
  "(properties (mergeSchemas (Some a) (Some b)) \<noteq> None
      \<longleftrightarrow> includes_tag a ''object'' \<and> includes_tag b ''object'') \<and>
   (required (mergeSchemas (Some a) (Some b)) \<noteq> None
      \<longrightarrow> includes_tag a ''object'' \<and> includes_tag b ''object'') \<and>
   (items (mergeSchemas (Some a) (Some b)) \<noteq> None
      \<longleftrightarrow> includes_tag a ''array'' \<and> includes_tag b ''array'') \<and>
   (includes_tag a ''object'' \<noteq> includes_tag b ''object'' \<longrightarrow>
      includes_tag (mergeSchemas (Some a) (Some b)) ''object'' \<and>
      properties (mergeSchemas (Some a) (Some b)) = None \<and>
      required (mergeSchemas (Some a) (Some b)) = None) \<and>
   (includes_tag a ''array'' \<noteq> includes_tag b ''array'' \<longrightarrow>
      includes_tag (mergeSchemas (Some a) (Some b)) ''array'' \<and>
      items (mergeSchemas (Some a) (Some b)) = None)"
proof -
  have obj: "includes_tag (mergeSchemas (Some a) (Some b)) ''object''
               \<longleftrightarrow> includes_tag a ''object'' \<or> includes_tag b ''object''"
    by (rule includes_tag_merge) simp
  have arr: "includes_tag (mergeSchemas (Some a) (Some b)) ''array''
               \<longleftrightarrow> includes_tag a ''array'' \<or> includes_tag b ''array''"
    by (rule includes_tag_merge) simp
  have p: "properties (mergeSchemas (Some a) (Some b)) \<noteq> None
             \<longleftrightarrow> includes_tag a ''object'' \<and> includes_tag b ''object''"
    by simp
  have i: "items (mergeSchemas (Some a) (Some b)) \<noteq> None
             \<longleftrightarrow> includes_tag a ''array'' \<and> includes_tag b ''array''"
    by simp
  have r: "required (mergeSchemas (Some a) (Some b)) \<noteq> None
             \<longrightarrow> includes_tag a ''object'' \<and> includes_tag b ''object''"
    by simp
  from obj arr p i r show ?thesis
    by blast
qed

theorem merge_fields_need_both_witness:
  "includes_tag (inferSchema object_a) ''object'' \<noteq> includes_tag (inferSchema one) ''object'' \<and>
   includes_tag (mergeSchemas (Some (inferSchema object_a)) (Some (inferSchema one))) ''object'' \<and>
   properties (mergeSchemas (Some (inferSchema object_a)) (Some (inferSchema one))) = None \<and>
   required (mergeSchemas (Some (inferSchema object_a)) (Some (inferSchema one))) = None \<and>
   includes_tag (inferSchema (JArray [])) ''array'' \<noteq> includes_tag (inferSchema one) ''array'' \<and>
   includes_tag (mergeSchemas (Some (inferSchema (JArray []))) (Some (inferSchema one))) ''array'' \<and>
   items (mergeSchemas (Some (inferSchema (JArray []))) (Some (inferSchema one))) = None \<and>
   properties (mergeSchemas (Some (inferSchema object_a)) (Some (inferSchema object_a))) \<noteq> None"
  using merge_fields_need_both [of "inferSchema object_a" "inferSchema one"]
    merge_fields_need_both [of "inferSchema (JArray [])" "inferSchema one"]
    merge_fields_need_both [of "inferSchema object_a" "inferSchema object_a"]
    tag_object_a tag_one tag_empty_array
  by blast

text \<open>
  Claim C10. For a schema \<open>b\<close> with the tag \<open>object\<close> or \<open>array\<close>, merging with the
  schema without fields, on either side, gives the tags of \<open>b\<close> and none of
  \<open>properties\<close>, \<open>required\<close> and \<open>items\<close>, while merging with an absent operand
  gives \<open>b\<close> itself.
\<close>

theorem empty_schema_not_identity:
  assumes "includes_tag b ''object'' \<or> includes_tag b ''array''"
  shows "normalizeTypes (Some (mergeSchemas (Some empty_schema) (Some b)))
           = new_Set (normalizeTypes (Some b)) \<and>
         properties (mergeSchemas (Some empty_schema) (Some b)) = None \<and>
         required (mergeSchemas (Some empty_schema) (Some b)) = None \<and>
         items (mergeSchemas (Some empty_schema) (Some b)) = None \<and>
         normalizeTypes (Some (mergeSchemas (Some b) (Some empty_schema)))
           = new_Set (normalizeTypes (Some b)) \<and>
         properties (mergeSchemas (Some b) (Some empty_schema)) = None \<and>
         required (mergeSchemas (Some b) (Some empty_schema)) = None \<and>
         items (mergeSchemas (Some b) (Some empty_schema)) = None \<and>
         mergeSchemas None (Some b) = b \<and> mergeSchemas (Some b) None = b"
proof -
  have e: "normalizeTypes (Some empty_schema) = []"
    by (simp add: empty_schema_def)
  have no: "\<not> includes_tag empty_schema t" for t
    by (simp only: includes_tag_def e) simp
  from assms have "new_Set (normalizeTypes (Some b)) \<noteq> [[]]"
    by (metis includes_tag_def set_new_Set list.discI list.sel(1) list.set_cases set_ConsD
          empty_iff empty_set)
  then have t: "normalizeTypes (Some (mergeSchemas (Some empty_schema) (Some b)))
                  = new_Set (normalizeTypes (Some b))"
       and t': "normalizeTypes (Some (mergeSchemas (Some b) (Some empty_schema)))
                  = new_Set (normalizeTypes (Some b))"
    by (simp_all only: tags_of_merge_raw e append_Nil append_Nil2 if_False)
  have f: "properties (mergeSchemas (Some empty_schema) (Some b)) = None"
          "required (mergeSchemas (Some empty_schema) (Some b)) = None"
          "items (mergeSchemas (Some empty_schema) (Some b)) = None"
          "properties (mergeSchemas (Some b) (Some empty_schema)) = None"
          "required (mergeSchemas (Some b) (Some empty_schema)) = None"
          "items (mergeSchemas (Some b) (Some empty_schema)) = None"
    using no by simp_all
  from t t' f show ?thesis
    by simp
qed

theorem empty_schema_not_identity_witness:
  "(includes_tag (inferSchema object_a) ''object'' \<or> includes_tag (inferSchema object_a) ''array'') \<and>
   properties (mergeSchemas (Some empty_schema) (Some (inferSchema object_a))) = None \<and>
   properties (inferSchema object_a) \<noteq> None \<and>
   mergeSchemas None (Some (inferSchema object_a)) = inferSchema object_a"
proof -
  have h: "includes_tag (inferSchema object_a) ''object'' \<or> includes_tag (inferSchema object_a) ''array''"
    using tag_object_a by simp
  have p: "properties (inferSchema object_a) \<noteq> None"
    by (simp add: infer_object_a)
  from empty_schema_not_identity [OF h] h p show ?thesis
    by blast
qed


lemma infer_object_ab:
  "inferSchema object_ab
     = JsonSchema None (Some (Single ''object''))
         (Some [(''a'', type_only ''integer''), (''b'', type_only ''integer'')]) None
         (Some [''a'', ''b''])"
  by (simp add: object_ab_def infer_one js_object_defs)

lemma tag_object_ab: "includes_tag (inferSchema object_ab) ''object''"
  by (simp add: infer_object_ab includes_tag_def)

lemma merge_ab_a:
  "mergeSchemas (Some (inferSchema object_ab)) (Some (inferSchema object_a))
     = JsonSchema None (Some (Single ''object''))
         (Some [(''a'', type_only ''integer''), (''b'', type_only ''integer'')]) None
         (Some [''a''])"
  by (simp add: infer_object_ab infer_object_a merge_defs js_object_defs)

text \<open>
  Claim C4. When both operands carry the tag \<open>object\<close>, the merged \<open>required\<close> list
  holds exactly the names that both \<open>required\<close> lists hold, each once, and is absent when
  there is no such name. The items of \<^verbatim>\<open>[{"a":1,"b":2},{"a":1}]\<close> have the properties
  \<open>a\<close> and \<open>b\<close> and require \<open>a\<close> only.
\<close>

theorem required_is_intersection:
  assumes "includes_tag a ''object''" and "includes_tag b ''object''"
  shows "(case required (mergeSchemas (Some a) (Some b)) of
            None \<Rightarrow> set (required_or_empty a) \<inter> set (required_or_empty b) = {}
          | Some xs \<Rightarrow> xs \<noteq> [] \<and> distinct xs \<and>
                      set xs = set (required_or_empty a) \<inter> set (required_or_empty b)) \<and>
         items (inferSchema (JArray [object_ab, object_a]))
           = Some (JsonSchema None (Some (Single ''object''))
                    (Some [(''a'', type_only ''integer''), (''b'', type_only ''integer'')]) None
                    (Some [''a'']))"
proof -
  from assms have "required (mergeSchemas (Some a) (Some b)) = merged_required a b"
    by simp
  then have general: "case required (mergeSchemas (Some a) (Some b)) of
            None \<Rightarrow> set (required_or_empty a) \<inter> set (required_or_empty b) = {}
          | Some xs \<Rightarrow> xs \<noteq> [] \<and> distinct xs \<and>
                      set xs = set (required_or_empty a) \<inter> set (required_or_empty b)"
    using merged_required_sets [of a b] by simp
  have example: "items (inferSchema (JArray [object_ab, object_a]))
           = Some (JsonSchema None (Some (Single ''object''))
                    (Some [(''a'', type_only ''integer''), (''b'', type_only ''integer'')]) None
                    (Some [''a'']))"
    by (simp add: merge_ab_a del: mergeSchemas.simps(3))
  from general example show ?thesis
    by (rule conjI)
qed

theorem required_is_intersection_witness:
  "includes_tag (inferSchema object_ab) ''object'' \<and> includes_tag (inferSchema object_a) ''object'' \<and>
   required (mergeSchemas (Some (inferSchema object_ab)) (Some (inferSchema object_a))) = Some [''a''] \<and>
   set [''a''] = set (required_or_empty (inferSchema object_ab))
                   \<inter> set (required_or_empty (inferSchema object_a))"
proof -
  have r: "required (mergeSchemas (Some (inferSchema object_ab)) (Some (inferSchema object_a)))
             = Some [''a'']"
    by (simp only: merge_ab_a JsonSchema.sel)
  have "case required (mergeSchemas (Some (inferSchema object_ab)) (Some (inferSchema object_a))) of
            None \<Rightarrow> set (required_or_empty (inferSchema object_ab))
                      \<inter> set (required_or_empty (inferSchema object_a)) = {}
          | Some xs \<Rightarrow> xs \<noteq> [] \<and> distinct xs \<and>
                      set xs = set (required_or_empty (inferSchema object_ab))
                                 \<inter> set (required_or_empty (inferSchema object_a))"
    using required_is_intersection [OF tag_object_ab tag_object_a] by (rule conjunct1)
  then have s: "set [''a''] = set (required_or_empty (inferSchema object_ab))
                   \<inter> set (required_or_empty (inferSchema object_a))"
    unfolding r by simp
  from tag_object_ab tag_object_a r s show ?thesis
    by blast
qed


subsection \<open>Entries of a record built by assignments\<close>

lemma set_js_insert: "set (js_insert k v ps) = insert (k, v) (set ps)"
  by (induction ps) auto

lemma set_update: "set (AList.update k v al) \<subseteq> insert (k, v) (set al)"
  by (induction al) auto

lemma set_js_define: "set (js_define obj k v) \<subseteq> insert (k, v) (set obj)"
  using set_update [of k v obj] by (simp add: js_define_def set_js_insert)

lemma set_js_assign: "set (js_assign obj k v) \<subseteq> insert (k, v) (set obj)"
  using set_js_define [of obj k v] by (auto simp: js_assign_def)

lemma assigned_by_key:
  "e \<in> set (foldl (\<lambda>props key. js_assign props key (f key)) acc keys) \<Longrightarrow>
     e \<in> set acc \<or> (\<exists>k \<in> set keys. e = (k, f k))"
proof (induction keys arbitrary: acc)
  case Nil
  then show ?case by simp
next
  case (Cons k keys)
  from Cons.prems have "e \<in> set (js_assign acc k (f k)) \<or> (\<exists>k \<in> set keys. e = (k, f k))"
    using Cons.IH [of "js_assign acc k (f k)"] by simp
  with set_js_assign [of acc k "f k"] show ?case
    by auto
qed

lemma assigned_by_entry:
  "e \<in> set (foldl (\<lambda>props (key, val). js_assign props key (g val)) acc es) \<Longrightarrow>
     e \<in> set acc \<or> (\<exists>x \<in> set es. e = (fst x, g (snd x)))"
proof (induction es arbitrary: acc)
  case Nil
  then show ?case by simp
next
  case (Cons x es)
  obtain k v where x: "x = (k, v)" by (cases x)
  from Cons.prems x have "e \<in> set (js_assign acc k (g v)) \<or> (\<exists>x \<in> set es. e = (fst x, g (snd x)))"
    using Cons.IH [of "js_assign acc k (g v)"] by simp
  with set_js_assign [of acc k "g v"] x show ?case
    by auto
qed

lemma js_get_Some: "js_get ps k = Some s \<Longrightarrow> (k, s) \<in> set ps \<or> s = empty_schema"
  by (auto simp: js_get_def split: option.splits if_splits dest: map_of_SomeD)

subsection \<open>A property of every schema of a result\<close>

lemma all_nodes_iff:
  "all_nodes P s \<longleftrightarrow>
     P s \<and> (\<forall>e \<in> set (props_or_empty s). all_nodes P (snd e)) \<and>
     (\<forall>c. items s = Some c \<longrightarrow> all_nodes P c)"
  by (cases s) (auto simp: props_or_empty_def split: option.splits)

lemma all_nodes_empty: "P empty_schema \<Longrightarrow> all_nodes P empty_schema"
  by (simp add: empty_schema_def)

lemma all_nodes_type_only: "P (type_only t) \<Longrightarrow> all_nodes P (type_only t)"
  by (simp add: type_only_def)

lemma all_nodes_merge:
  assumes root: "\<And>l r ps it.
      P (JsonSchema None (merged_type l r)
          (if includes_tag l ''object'' \<and> includes_tag r ''object'' then Some ps else None)
          (if includes_tag l ''array'' \<and> includes_tag r ''array'' then Some it else None)
          (if includes_tag l ''object'' \<and> includes_tag r ''object''
           then merged_required l r else None))"
    and empty: "P empty_schema"
  shows "pred_option (all_nodes P) l \<Longrightarrow> pred_option (all_nodes P) r \<Longrightarrow>
         all_nodes P (mergeSchemas l r)"
proof (induction l r rule: mergeSchemas.induct)
  case (1 right)
  then show ?case
    by (cases right) (simp_all add: all_nodes_empty empty)
next
  case (2 left)
  then show ?case by simp
next
  case (3 left right)
  from "3.prems" have L: "all_nodes P left" and R: "all_nodes P right"
    by simp_all
  have got: "pred_option (all_nodes P) (js_get (props_or_empty x) k)" if "all_nodes P x" for x k
  proof (cases "js_get (props_or_empty x) k")
    case None
    then show ?thesis by simp
  next
    case (Some s)
    from js_get_Some [OF this] have "all_nodes P s"
    proof
      assume "(k, s) \<in> set (props_or_empty x)"
      with that show ?thesis
        by (subst (asm) all_nodes_iff) auto
    next
      assume "s = empty_schema"
      with empty show ?thesis
        by (simp add: all_nodes_empty)
    qed
    with Some show ?thesis by simp
  qed
  have props: "all_nodes P (snd e)"
    if both: "includes_tag left ''object'' \<and> includes_tag right ''object''"
    and e: "e \<in> set (foldl (\<lambda>props key. js_assign props key
                (mergeSchemas (js_get (props_or_empty left) key)
                              (js_get (props_or_empty right) key)))
              [] (merged_keys left right))" for e
  proof -
    from assigned_by_key [OF e] obtain k where k: "k \<in> set (merged_keys left right)"
      and eq: "e = (k, mergeSchemas (js_get (props_or_empty left) k)
                                    (js_get (props_or_empty right) k))"
      by auto
    have "all_nodes P (mergeSchemas (js_get (props_or_empty left) k)
                                    (js_get (props_or_empty right) k))"
      using both k got [OF L] got [OF R] by (intro "3.IH"(1)) blast+
    with eq show ?thesis by simp
  qed
  have its: "all_nodes P (mergeSchemas (items left) (items right))"
    if both: "includes_tag left ''array'' \<and> includes_tag right ''array''"
  proof -
    have "pred_option (all_nodes P) (items left)"
      using L by (subst (asm) all_nodes_iff) (cases "items left"; simp)
    moreover have "pred_option (all_nodes P) (items right)"
      using R by (subst (asm) all_nodes_iff) (cases "items right"; simp)
    ultimately show ?thesis
      using both by (intro "3.IH"(2))
  qed
  show ?case
    using root [of left right] props its by simp
qed

lemma all_nodes_fold_merge:
  assumes root: "\<And>l r ps it.
      P (JsonSchema None (merged_type l r)
          (if includes_tag l ''object'' \<and> includes_tag r ''object'' then Some ps else None)
          (if includes_tag l ''array'' \<and> includes_tag r ''array'' then Some it else None)
          (if includes_tag l ''object'' \<and> includes_tag r ''object''
           then merged_required l r else None))"
    and empty: "P empty_schema"
    and elems: "\<forall>x \<in> set xs. all_nodes P (f x)"
    and start: "pred_option (all_nodes P) acc"
  shows "pred_option (all_nodes P)
           (foldl (\<lambda>acc item. Some (mergeSchemas acc (Some (f item)))) acc xs)"
  using elems start
proof (induction xs arbitrary: acc)
  case Nil
  then show ?case by simp
next
  case (Cons x xs)
  from Cons.prems have "pred_option (all_nodes P) (Some (f x))"
    by simp
  with Cons.prems(2) have "all_nodes P (mergeSchemas acc (Some (f x)))"
    by (rule all_nodes_merge [where P = P, OF root empty])
  then have "pred_option (all_nodes P) (Some (mergeSchemas acc (Some (f x))))"
    by simp
  moreover from Cons.prems have "\<forall>x \<in> set xs. all_nodes P (f x)"
    by simp
  ultimately have "pred_option (all_nodes P)
           (foldl (\<lambda>acc item. Some (mergeSchemas acc (Some (f item))))
              (Some (mergeSchemas acc (Some (f x)))) xs)"
    by (rule Cons.IH [rotated])
  then show ?case
    by simp
qed

lemma all_nodes_infer:
  assumes root: "\<And>l r ps it.
      P (JsonSchema None (merged_type l r)
          (if includes_tag l ''object'' \<and> includes_tag r ''object'' then Some ps else None)
          (if includes_tag l ''array'' \<and> includes_tag r ''array'' then Some it else None)
          (if includes_tag l ''object'' \<and> includes_tag r ''object''
           then merged_required l r else None))"
    and empty: "P empty_schema"
    and leaf: "\<And>t. P (type_only t)"
    and arr: "\<And>it. P (JsonSchema None (Some (Single ''array'')) None (Some it) None)"
    and obj: "\<And>ps rq. P (JsonSchema None (Some (Single ''object'')) (Some ps) None rq)"
  shows "all_nodes P (inferSchema v)"
proof (induction v rule: inferSchema.induct)
  case 1
  show ?case by (simp add: all_nodes_type_only leaf)
next
  case (2 xs)
  show ?case
  proof (cases "xs = []")
    case True
    then show ?thesis
      by (simp add: arr all_nodes_empty empty)
  next
    case False
    with 2 have el: "\<forall>x \<in> set xs. all_nodes P (inferSchema x)"
      by simp
    have "pred_option (all_nodes P)
            (foldl (\<lambda>acc item. Some (mergeSchemas acc (Some (inferSchema item)))) None xs)"
      by (rule all_nodes_fold_merge [where P = P, OF root empty el]) simp
    with False show ?thesis
      by (cases "foldl (\<lambda>acc item. Some (mergeSchemas acc (Some (inferSchema item)))) None xs")
         (simp_all add: arr all_nodes_empty empty Let_def)
  qed
next
  case (3 es)
  have "all_nodes P (snd e)"
    if "e \<in> set (foldl (\<lambda>props (key, val). js_assign props key (inferSchema val)) [] es)" for e
  proof -
    from assigned_by_entry [OF that] obtain x where "x \<in> set es" "e = (fst x, inferSchema (snd x))"
      by auto
    with 3 [of x "fst x" "snd x"] show ?thesis
      by simp
  qed
  then show ?case
    by (simp add: obj Let_def)
next
  case (4 x)
  show ?case by (simp add: all_nodes_type_only leaf)
next
  case (5 b)
  show ?case by (simp add: all_nodes_type_only leaf)
next
  case (6 s)
  show ?case by (simp add: all_nodes_type_only leaf)
qed

subsection \<open>The invariant of section 3\<close>

lemma includes_tag_built:
  "tag \<noteq> [] \<Longrightarrow>
     includes_tag (JsonSchema d (merged_type l r) p i rq) tag
       \<longleftrightarrow> includes_tag l tag \<or> includes_tag r tag"
  using includes_tag_merge [of tag l r] by (simp add: includes_tag_def)

lemma only_if_tagged_infer: "all_nodes fields_only_if_tagged (inferSchema v)"
proof (rule all_nodes_infer)
  fix l r ps it
  show "fields_only_if_tagged (JsonSchema None (merged_type l r)
          (if includes_tag l ''object'' \<and> includes_tag r ''object'' then Some ps else None)
          (if includes_tag l ''array'' \<and> includes_tag r ''array'' then Some it else None)
          (if includes_tag l ''object'' \<and> includes_tag r ''object''
           then merged_required l r else None))"
    by (simp add: fields_only_if_tagged_def includes_tag_built)
next
  show "fields_only_if_tagged empty_schema"
    by (simp add: fields_only_if_tagged_def empty_schema_def)
next
  fix t
  show "fields_only_if_tagged (type_only t)"
    by (simp add: fields_only_if_tagged_def type_only_def)
next
  fix it
  show "fields_only_if_tagged (JsonSchema None (Some (Single ''array'')) None (Some it) None)"
    by (simp add: fields_only_if_tagged_def includes_tag_def)
next
  fix ps rq
  show "fields_only_if_tagged (JsonSchema None (Some (Single ''object'')) (Some ps) None rq)"
    by (simp add: fields_only_if_tagged_def includes_tag_def)
qed

lemma no_dollar_infer: "all_nodes (\<lambda>s. dollar_schema s = None) (inferSchema v)"
  by (rule all_nodes_infer) (simp_all add: empty_schema_def type_only_def)

lemma root_infer: "tagged_has_fields (inferSchema v)"
  by (cases v) (simp_all add: tagged_has_fields_def includes_tag_def type_only_def Let_def)

text \<open>
  The invariant of section 3 does not hold of every schema of a result: the items of
  \<^verbatim>\<open>[1, {"a": 1}]\<close> carry the tag \<open>object\<close> and have no \<open>properties\<close>.
\<close>

theorem invariant_counterexample:
  "\<not> all_nodes tagged_has_fields (inferSchema (JArray [one, object_a]))"
  unfolding infer_one_object_a by (simp add: tagged_has_fields_def includes_tag_def)

text \<open>
  Claim C2, amended. For a document in which no object has the key \<^verbatim>\<open>__proto__\<close>, the
  schema that the inferrer returns satisfies the invariant at its root, and at every depth
  of it the other direction holds: \<open>properties\<close> and \<open>required\<close> come only with the tag
  \<open>object\<close>, \<open>items\<close> only with the tag \<open>array\<close>. The merge of two schemas satisfies the
  invariant at its root exactly when the operands agree on carrying the tag \<open>object\<close> and
  agree on carrying the tag \<open>array\<close>.
\<close>

theorem infer_root_invariant:
  "(proto_free v \<longrightarrow>
      tagged_has_fields (inferSchema v) \<and> all_nodes fields_only_if_tagged (inferSchema v)) \<and>
   (tagged_has_fields (mergeSchemas (Some a) (Some b))
      \<longleftrightarrow> (includes_tag a ''object'' = includes_tag b ''object'') \<and>
          (includes_tag a ''array'' = includes_tag b ''array''))"
proof -
  have obj: "includes_tag (mergeSchemas (Some a) (Some b)) ''object''
               \<longleftrightarrow> includes_tag a ''object'' \<or> includes_tag b ''object''"
    by (rule includes_tag_merge) simp
  have arr: "includes_tag (mergeSchemas (Some a) (Some b)) ''array''
               \<longleftrightarrow> includes_tag a ''array'' \<or> includes_tag b ''array''"
    by (rule includes_tag_merge) simp
  have "tagged_has_fields (mergeSchemas (Some a) (Some b))
      \<longleftrightarrow> (includes_tag a ''object'' = includes_tag b ''object'') \<and>
          (includes_tag a ''array'' = includes_tag b ''array'')"
    unfolding tagged_has_fields_def obj arr merged_fields by blast
  with root_infer [of v] only_if_tagged_infer [of v] show ?thesis
    by simp
qed

theorem infer_root_invariant_witness:
  "proto_free (JArray [one, object_a]) \<and>
   includes_tag (inferSchema (JArray [one, object_a])) ''array'' \<and>
   items (inferSchema (JArray [one, object_a])) \<noteq> None \<and>
   tagged_has_fields (inferSchema (JArray [one, object_a])) \<and>
   all_nodes fields_only_if_tagged (inferSchema (JArray [one, object_a])) \<and>
   includes_tag (inferSchema one) ''object'' \<noteq> includes_tag (inferSchema object_a) ''object'' \<and>
   \<not> tagged_has_fields (mergeSchemas (Some (inferSchema one)) (Some (inferSchema object_a)))"
proof -
  have p: "proto_free (JArray [one, object_a])"
    by (simp add: one_def object_a_def)
  have t: "includes_tag (inferSchema (JArray [one, object_a])) ''array''"
    unfolding infer_one_object_a by (simp add: includes_tag_def)
  have i: "items (inferSchema (JArray [one, object_a])) \<noteq> None"
    unfolding infer_one_object_a by simp
  from infer_root_invariant [of "JArray [one, object_a]" "inferSchema one" "inferSchema object_a"]
    p t i tag_one tag_object_a
  show ?thesis
    by blast
qed

lemma children_generate: "children (generateSchema v) = children (inferSchema v)"
  by (simp add: generateSchema_def children_def props_or_empty_def Let_def)

lemma all_nodes_children: "all_nodes P s \<Longrightarrow> c \<in> set (children s) \<Longrightarrow> all_nodes P c"
  by (subst (asm) all_nodes_iff) (auto simp: children_def split: option.splits)

text \<open>
  The document on which \<^verbatim>\<open>generateSchema\<close> ends in a \<^verbatim>\<open>TypeError\<close> is a value that
  \<^verbatim>\<open>JSON.parse\<close> returns, and it is not \<open>proto_free\<close>; the trimmer keeps its keys.
\<close>

lemma proto_document_parsed: "parsed proto_document \<and> \<not> proto_free proto_document"
  by (simp add: proto_document_def one_def key_precedes_def array_index_def is_digit_def)

lemma proto_document_trimmed: "trimStructure proto_document 2 = proto_document"
  by (simp add: proto_document_def one_def slice0_def fromEntries_def js_define_def
        key_precedes_def array_index_def is_digit_def)

text \<open>
  Claim C9, on the documents in which no object has the key \<^verbatim>\<open>__proto__\<close>. The
  generated schema is the inferred schema with the field \<open>$schema\<close> set to the draft
  identifier, the same literal for every such document. No schema of the inferred schema
  has a \<open>$schema\<close>, so the generated schema has it at the root only. Nothing is stated of
  a document with the key \<^verbatim>\<open>__proto__\<close>: there the schema assigned at line 111 becomes
  the prototype of the record, the merge reads its members in schema position, and
  \<^verbatim>\<open>generateSchema\<close> can end in a \<^verbatim>\<open>TypeError\<close> at line 78, as it does on
  \<^verbatim>\<open>[{"__proto__":{"__proto__":{},"required":1}},{"properties":{}}]\<close>.
\<close>

theorem generateSchema_root:
  assumes "proto_free v"
  shows "generateSchema v
     = JsonSchema (Some ''https://json-schema.org/draft/2020-12/schema'')
         (schema_type (inferSchema v)) (properties (inferSchema v)) (items (inferSchema v))
         (required (inferSchema v)) \<and>
   all_nodes (\<lambda>s. dollar_schema s = None) (inferSchema v) \<and>
   (\<forall>c \<in> set (children (generateSchema v)). all_nodes (\<lambda>s. dollar_schema s = None) c)"
proof -
  have nd: "all_nodes (\<lambda>s. dollar_schema s = None) (inferSchema v)"
    by (rule no_dollar_infer)
  then have "dollar_schema (inferSchema v) = None"
    by (subst (asm) all_nodes_iff) simp
  then have g: "generateSchema v
     = JsonSchema (Some ''https://json-schema.org/draft/2020-12/schema'')
         (schema_type (inferSchema v)) (properties (inferSchema v)) (items (inferSchema v))
         (required (inferSchema v))"
    by (simp add: generateSchema_def draft_identifier_def Let_def)
  have "\<forall>c \<in> set (children (generateSchema v)). all_nodes (\<lambda>s. dollar_schema s = None) c"
    using nd by (auto simp only: children_generate dest: all_nodes_children)
  with g nd show ?thesis
    by blast
qed

theorem generateSchema_root_witness:
  "proto_free object_a \<and>
   type_only ''integer'' \<in> set (children (generateSchema object_a)) \<and>
   all_nodes (\<lambda>s. dollar_schema s = None) (type_only ''integer'') \<and>
   generateSchema object_a
     = JsonSchema (Some ''https://json-schema.org/draft/2020-12/schema'')
         (Some (Single ''object'')) (Some [(''a'', type_only ''integer'')]) None (Some [''a''])"
proof -
  have p: "proto_free object_a"
    by (simp add: object_a_def one_def)
  have c: "type_only ''integer'' \<in> set (children (generateSchema object_a))"
    unfolding children_generate infer_object_a by (simp add: children_def props_or_empty_def)
  from generateSchema_root [OF p] c p show ?thesis
    by (simp add: infer_object_a)
qed

subsection \<open>Lookup in a record built by assignments\<close>





subsection \<open>Merging in the other order\<close>















end
